theory Spec2Isabelle
  imports
    Main
    "HOL-Library.Char_ord"
    "HOL-Library.List_Lexorder"
    "HOL-Library.Product_Lexorder"
    "HOL-Library.Multiset"
    "HOL-Library.AList"
begin

section \<open>Values and strings\<close>

text \<open>
  A cell of the data frame holds text, a Python integer or the missing value (the float
  NaN that pandas puts where the sheet has no value). Other floats, booleans and
  timestamps are outside the model.

  A Python string is modelled as a list of 8-bit characters, read as the code points
  U+0000 to U+00FF. On that range the regular expression class \<open>\d\<close> is the ten ASCII
  digits and \<open>str.isspace\<close> holds for the twelve code points listed in \<open>is_space\<close>.
  Case mappings (\<open>upper\<close>, \<open>lower\<close>, \<open>title\<close>) are modelled on the ASCII letters only;
  every other character is treated as uncased.
\<close>

datatype cell = NaN | Str string | IntV int

definition digit_char :: "nat \<Rightarrow> char" where
  "digit_char d = ''0123456789'' ! d"

function digits_of_nat :: "nat \<Rightarrow> string" where
  "digits_of_nat n =
     (if n < 10 then [digit_char n]
      else digits_of_nat (n div 10) @ [digit_char (n mod 10)])"
  by pat_completeness auto
termination
proof (relation "measure id")
  show "wf (measure id)" by simp
next
  fix n :: nat
  assume "\<not> n < 10"
  then have "n div 10 < n" by (intro div_less_dividend) simp_all
  then show "(n div 10, n) \<in> measure id" by simp
qed

declare digits_of_nat.simps [simp del]

text \<open>\<open>str(x)\<close>: text is itself, NaN prints as \<open>nan\<close>, an integer in decimal.\<close>

fun py_str :: "cell \<Rightarrow> string" where
  "py_str NaN = ''nan''"
| "py_str (Str s) = s"
| "py_str (IntV i) =
     (if i < 0 then CHR ''-'' # digits_of_nat (nat (- i)) else digits_of_nat (nat i))"

definition is_digit :: "char \<Rightarrow> bool" where
  "is_digit c \<longleftrightarrow> c \<in> set ''0123456789''"

definition is_space :: "char \<Rightarrow> bool" where
  "is_space c \<longleftrightarrow>
     c \<in> {CHR 0x09, CHR 0x0A, CHR 0x0B, CHR 0x0C, CHR 0x0D, CHR 0x1C, CHR 0x1D,
          CHR 0x1E, CHR 0x1F, CHR 0x20, CHR 0x85, CHR 0xA0}"

definition lstrip :: "string \<Rightarrow> string" where
  "lstrip s = dropWhile is_space s"

definition rstrip :: "string \<Rightarrow> string" where
  "rstrip s = rev (dropWhile is_space (rev s))"

definition strip :: "string \<Rightarrow> string" where
  "strip s = rstrip (lstrip s)"

text \<open>Python slices \<open>s[:i]\<close> and \<open>s[i:]\<close>; a negative index counts from the end, and
  an index beyond either end is clamped.\<close>

definition slice_to :: "'a list \<Rightarrow> int \<Rightarrow> 'a list" where
  "slice_to s i = (if i < 0 then take (length s - nat (- i)) s else take (nat i) s)"

definition slice_from :: "'a list \<Rightarrow> int \<Rightarrow> 'a list" where
  "slice_from s i = (if i < 0 then drop (length s - nat (- i)) s else drop (nat i) s)"

text \<open>\<open>s.find(c)\<close> for a one-character needle: the lowest index, or \<open>-1\<close>.\<close>

fun find_from :: "char \<Rightarrow> string \<Rightarrow> int \<Rightarrow> int" where
  "find_from c [] k = - 1"
| "find_from c (x # xs) k = (if x = c then k else find_from c xs (k + 1))"

definition py_find :: "string \<Rightarrow> char \<Rightarrow> int" where
  "py_find s c = find_from c s 0"

definition endswith :: "string \<Rightarrow> string \<Rightarrow> bool" where
  "endswith s suffix \<longleftrightarrow>
     length suffix \<le> length s \<and> drop (length s - length suffix) s = suffix"

text \<open>\<open>s.zfill(w)\<close>: zeros on the left up to width \<open>w\<close>, after a leading sign.\<close>

definition zfill :: "string \<Rightarrow> nat \<Rightarrow> string" where
  "zfill s w =
     (if w \<le> length s then s
      else (case s of
              c # cs \<Rightarrow>
                if c = CHR ''+'' \<or> c = CHR ''-''
                then c # replicate (w - length s) CHR ''0'' @ cs
                else replicate (w - length s) CHR ''0'' @ s
            | [] \<Rightarrow> replicate w CHR ''0''))"

text \<open>\<open>re.sub(r"\D", "", s)\<close>: the digits of \<open>s\<close>, in order.\<close>

definition remove_non_digits :: "string \<Rightarrow> string" where
  "remove_non_digits s = filter is_digit s"

section \<open>Field normalisers\<close>

text \<open>
  \<^verbatim>\<open>
  def split_name(full_name):
      s = str(full_name).strip()
      if " " in s:
          i = s.find(" ")
          return pd.Series([s[:i], s[i+1:]])
      return pd.Series([s, ""])
  \<close>
\<close>

definition split_name :: "cell \<Rightarrow> string \<times> string" where
  "split_name full_name =
     (let s = strip (py_str full_name) in
      if CHR '' '' \<in> set s
      then (let i = py_find s CHR '' '' in (slice_to s i, slice_from s (i + 1)))
      else (s, ''''))"

text \<open>
  \<^verbatim>\<open>
  def fix_mobile(x):
      d = re.sub(r"\D", "", str(x))
      if len(d) > 10:
          extra = len(d) - 10
          if d.endswith("0" * extra):
              d = d[:-extra]
          else:
              d = d[-10:]
      if len(d) < 10:
          d = d.zfill(10)
      return d
  \<close>
\<close>

definition fix_mobile :: "cell \<Rightarrow> string" where
  "fix_mobile x =
     (let d = remove_non_digits (py_str x);
          d = (if length d > 10
               then (let extra = length d - 10 in
                     if endswith d (replicate extra CHR ''0'')
                     then slice_to d (- int extra)
                     else slice_from d (- 10))
               else d);
          d = (if length d < 10 then zfill d 10 else d)
      in d)"

text \<open>The rule for the mobile number as the specification words it, on the digits
  that remain: more than ten digits, fewer than ten, exactly ten.\<close>

definition fix_mobile_spec :: "cell \<Rightarrow> string" where
  "fix_mobile_spec x =
     (let d = filter is_digit (py_str x); n = length d in
      if n > 10
      then (if drop 10 d = replicate (n - 10) CHR ''0'' then take 10 d else drop (n - 10) d)
      else if n < 10 then replicate (10 - n) CHR ''0'' @ d
      else d)"

text \<open>The name split as the specification words it: at the first whitespace
  character of the trimmed string.\<close>

definition split_name_whitespace :: "cell \<Rightarrow> string \<times> string" where
  "split_name_whitespace x =
     (let s = strip (py_str x) in
      if list_ex is_space s
      then (takeWhile (\<lambda>c. \<not> is_space c) s, tl (dropWhile (\<lambda>c. \<not> is_space c) s))
      else (s, ''''))"

section \<open>The clearance date\<close>

text \<open>
  A \<open>date\<close> is modelled by its proleptic Gregorian ordinal (\<open>date.toordinal()\<close>): day 1
  is Monday 1 January of year 1, and \<open>d + timedelta(days=1)\<close> is the next ordinal.
  \<open>date.weekday()\<close> is \<open>(ordinal + 6) % 7\<close>, Monday being 0 and Sunday 6. The upper end of
  Python's calendar (31 December 9999) is not modelled. A \<open>datetime\<close> is its calendar
  date and the time of day; \<open>submit_dt.date()\<close> reads the first.
\<close>

type_synonym date = int

record datetime =
  dt_date :: date
  dt_microseconds :: nat

definition weekday :: "date \<Rightarrow> int" where
  "weekday d = (d + 6) mod 7"

text \<open>
  \<^verbatim>\<open>
  def next_working_day(d):
      while d.weekday() >= 5:
          d += timedelta(days=1)
      return d
  \<close>
\<close>

function next_working_day :: "date \<Rightarrow> date" where
  "next_working_day d = (if weekday d \<ge> 5 then next_working_day (d + 1) else d)"
  by pat_completeness auto
termination
proof (relation "measure (\<lambda>d. nat ((7 - weekday d) mod 7))")
  show "wf (measure (\<lambda>d. nat ((7 - weekday d) mod 7)))" by simp
next
  fix d :: date
  assume "5 \<le> weekday d"
  then have "(7 - weekday (d + 1)) mod 7 < (7 - weekday d) mod 7"
    unfolding weekday_def by presburger
  moreover have "0 \<le> (7 - weekday (d + 1)) mod 7" by simp
  ultimately show "(d + 1, d) \<in> measure (\<lambda>d. nat ((7 - weekday d) mod 7))"
    by simp
qed

declare next_working_day.simps [simp del]

text \<open>
  The counting loop of \<open>earliest_clearance_inclusive\<close>, from the state \<open>(d, counted)\<close> to
  the value of \<open>d\<close> when the loop ends:
  \<^verbatim>\<open>
      while counted < workdays:
          d += timedelta(days=1)
          if d.weekday() < 5:
              counted += 1
  \<close>
\<close>

function count_working_days :: "date \<Rightarrow> int \<Rightarrow> int \<Rightarrow> date" where
  "count_working_days d counted workdays =
     (if counted < workdays
      then (let d = d + 1 in
            if weekday d < 5 then count_working_days d (counted + 1) workdays
            else count_working_days d counted workdays)
      else d)"
  by pat_completeness auto
termination
proof (relation "measures [\<lambda>(d, counted, workdays). nat (workdays - counted),
                           \<lambda>(d, counted, workdays). nat ((6 - weekday d) mod 7)]")
  show "wf (measures [\<lambda>(d, counted, workdays). nat (workdays - counted),
                      \<lambda>(d, counted, workdays). nat ((6 - weekday d) mod 7)])"
    by simp
next
  fix d counted workdays x :: int
  assume "counted < workdays" "x = d + 1" "weekday x < 5"
  then show "((x, counted + 1, workdays), d, counted, workdays)
      \<in> measures [\<lambda>(d, counted, workdays). nat (workdays - counted),
                   \<lambda>(d, counted, workdays). nat ((6 - weekday d) mod 7)]"
    by simp
next
  fix d counted workdays x :: int
  assume a: "counted < workdays" "x = d + 1" "\<not> weekday x < 5"
  then have "(6 - weekday (d + 1)) mod 7 < (6 - weekday d) mod 7"
    unfolding weekday_def by presburger
  moreover have "0 \<le> (6 - weekday (d + 1)) mod 7" by simp
  ultimately show "((x, counted, workdays), d, counted, workdays)
      \<in> measures [\<lambda>(d, counted, workdays). nat (workdays - counted),
                   \<lambda>(d, counted, workdays). nat ((6 - weekday d) mod 7)]"
    using a by simp
qed

declare count_working_days.simps [simp del]

text \<open>
  \<^verbatim>\<open>
  def earliest_clearance_inclusive(submit_dt: datetime, workdays: int = 2) -> datetime:
      d = next_working_day(submit_dt.date())
      counted = 1
      while counted < workdays: ...
      clearance = d + timedelta(days=1)
      clearance = next_working_day(clearance)
      return clearance
  \<close>
\<close>

definition earliest_clearance_inclusive :: "datetime \<Rightarrow> int \<Rightarrow> date" where
  "earliest_clearance_inclusive submit_dt workdays =
     (let d = next_working_day (dt_date submit_dt);
          d = count_working_days d 1 workdays;
          clearance = d + 1;
          clearance = next_working_day clearance
      in clearance)"

text \<open>The default of the parameter \<open>workdays\<close>.\<close>

definition default_workdays :: int where
  "default_workdays = 2"



section \<open>More string functions\<close>










text \<open>\<open>s.split(";")\<close>: the pieces between the separators, empty pieces included.\<close>

fun split_at :: "char \<Rightarrow> string \<Rightarrow> string \<Rightarrow> string list" where
  "split_at sep piece [] = [piece]"
| "split_at sep piece (c # cs) =
     (if c = sep then piece # split_at sep [] cs else split_at sep (piece @ [c]) cs)"

definition py_split :: "string \<Rightarrow> char \<Rightarrow> string list" where
  "py_split s sep = split_at sep [] s"

text \<open>\<open>sep.join(parts)\<close>.\<close>

fun py_join :: "string \<Rightarrow> string list \<Rightarrow> string" where
  "py_join sep [] = []"
| "py_join sep [p] = p"
| "py_join sep (p # q # ps) = p @ sep @ py_join sep (q # ps)"



text \<open>
  \<open>re.compile(r"^\d{4}$").match(v)\<close>: four digits, or four digits and a newline that
  ends the string.
\<close>

definition dl_pattern_match :: "string \<Rightarrow> bool" where
  "dl_pattern_match v \<longleftrightarrow>
     (length v = 4 \<and> list_all is_digit v) \<or>
     (length v = 5 \<and> list_all is_digit (take 4 v) \<and> drop 4 v = [CHR 0x0A])"

section \<open>The remaining field normalisers\<close>







section \<open>The cleaning pipeline\<close>

text \<open>
  A row of the data frame after step 1, with the eleven columns the code names. The
  data frame that \<open>clean_data_us\<close> receives is a list of rows of cells, one list per row.
\<close>

record row =
  sn :: cell
  vehicle_plate :: cell
  company :: cell
  full_name :: cell
  first_name :: cell
  middle_last :: cell
  driver_license :: cell
  nationality :: cell
  gender :: cell
  mobile :: cell
  remarks :: cell



definition isna :: "cell \<Rightarrow> bool" where
  "isna c \<longleftrightarrow> c = NaN"



text \<open>
  The order \<open>sort_values\<close> puts the values of an object column in: numbers first, in
  their order, then strings, compared character by character by code point, and the
  missing value last. The key below is compared lexicographically.
\<close>

fun cell_key :: "cell \<Rightarrow> nat \<times> int \<times> string" where
  "cell_key (IntV i) = (0, i, [])"
| "cell_key (Str s) = (1, 0, s)"
| "cell_key NaN = (2, 0, [])"










section \<open>The workbook\<close>

text \<open>
  A worksheet is the dictionary \<open>_cells\<close> of openpyxl, from (row, column) to the cell,
  kept as an association list, and the counter \<open>_current_row\<close> that \<open>append\<close> reads. Of
  a cell the model keeps the value (\<open>None\<close> for no value) and the fill; borders,
  alignment, fonts, column widths, row heights and frozen panes are not modelled. A
  workbook is the list of its sheets with their titles; loading the uploaded file and
  saving to the buffer are the identity on it.
\<close>

datatype fill = NoFill | HeaderFill | InvalidFill

record wcell =
  cell_value :: "cell option"
  cell_fill :: fill

record worksheet =
  ws_cells :: "((nat \<times> nat) \<times> wcell) list"
  current_row :: nat

type_synonym workbook = "(string \<times> worksheet) list"

definition max_row :: "worksheet \<Rightarrow> nat" where
  "max_row ws = (if ws_cells ws = [] then 1 else Max (set (map (fst \<circ> fst) (ws_cells ws))))"

definition max_column :: "worksheet \<Rightarrow> nat" where
  "max_column ws = (if ws_cells ws = [] then 1 else Max (set (map (snd \<circ> fst) (ws_cells ws))))"

definition empty_cell :: wcell where
  "empty_cell = \<lparr>cell_value = None, cell_fill = NoFill\<rparr>"

text \<open>\<open>ws.cell(row, column)\<close> returns the cell, after creating it when the sheet does
  not have it.\<close>

definition touch :: "worksheet \<Rightarrow> nat \<times> nat \<Rightarrow> worksheet" where
  "touch ws k =
     (if map_of (ws_cells ws) k = None
      then ws\<lparr>ws_cells := AList.update k empty_cell (ws_cells ws),
              current_row := max (fst k) (current_row ws)\<rparr>
      else ws)"

definition get_cell :: "worksheet \<Rightarrow> nat \<times> nat \<Rightarrow> wcell" where
  "get_cell ws k = (case map_of (ws_cells ws) k of Some w \<Rightarrow> w | None \<Rightarrow> empty_cell)"

definition set_fill :: "worksheet \<Rightarrow> nat \<times> nat \<Rightarrow> fill \<Rightarrow> worksheet" where
  "set_fill ws k f =
     (let ws = touch ws k in
      ws\<lparr>ws_cells := AList.update k ((get_cell ws k)\<lparr>cell_fill := f\<rparr>) (ws_cells ws)\<rparr>)"

definition set_value :: "worksheet \<Rightarrow> nat \<times> nat \<Rightarrow> cell \<Rightarrow> worksheet" where
  "set_value ws k v =
     (let ws = touch ws k in
      ws\<lparr>ws_cells := AList.update k ((get_cell ws k)\<lparr>cell_value := Some v\<rparr>) (ws_cells ws)\<rparr>)"

text \<open>\<open>ws.append(row)\<close> writes the values into the row after \<open>_current_row\<close>, from
  column 1 on.\<close>

definition new_cell :: "cell \<Rightarrow> wcell" where
  "new_cell v = \<lparr>cell_value = Some v, cell_fill = NoFill\<rparr>"

definition ws_append :: "worksheet \<Rightarrow> cell list \<Rightarrow> worksheet" where
  "ws_append ws vs =
     (let r = current_row ws + 1 in
      ws\<lparr>ws_cells :=
           fold (\<lambda>(c, v). AList.update (r, c) (new_cell v))
             (zip [1..<Suc (length vs)] vs) (ws_cells ws),
         current_row := r\<rparr>)"

text \<open>\<open>ws.delete_rows(idx, amount)\<close>: the cells of the rows \<open>idx\<close> to
  \<open>idx + amount - 1\<close> go, and the rows below move up.\<close>

definition delete_rows :: "worksheet \<Rightarrow> nat \<Rightarrow> nat \<Rightarrow> worksheet" where
  "delete_rows ws idx amount =
     (let cs = map (\<lambda>((r, c), w). ((if idx + amount \<le> r then r - amount else r, c), w))
                 (filter (\<lambda>((r, c), w). \<not> (idx \<le> r \<and> r < idx + amount)) (ws_cells ws))
      in \<lparr>ws_cells = cs,
          current_row = (if cs = [] then 0 else Max (set (map (fst \<circ> fst) cs)))\<rparr>)"

definition new_sheet :: worksheet where
  "new_sheet = \<lparr>ws_cells = [], current_row = 0\<rparr>"

text \<open>\<open>wb.create_sheet(title)\<close> adds an empty sheet at the end. (openpyxl changes the
  title when the workbook has a sheet whose title differs from it by case only; the
  model gives the title asked for.)\<close>

definition create_sheet :: "workbook \<Rightarrow> string \<Rightarrow> workbook" where
  "create_sheet wb t = wb @ [(t, new_sheet)]"

text \<open>The sheet object is shared with the workbook: what the code does to \<open>ws\<close> is
  done to the first sheet of that title.\<close>

fun replace_sheet :: "string \<Rightarrow> worksheet \<Rightarrow> workbook \<Rightarrow> workbook" where
  "replace_sheet t ws [] = []"
| "replace_sheet t ws ((n, s) # rest) =
     (if n = t then (n, ws) # rest else (n, s) # replace_sheet t ws rest)"

text \<open>\<open>dataframe_to_rows(df, index=False, header=True)\<close>: the column names, then the
  rows.\<close>

definition columns :: "cell list" where
  "columns =
     [Str ''S/N'', Str ''Vehicle Plate Number'', Str ''Company Full Name'', Str ''Full Name'',
      Str ''First Name'', Str ''Middle and Last Name'', Str ''Driver License Number'',
      Str ''Nationality (Country Name)'', Str ''Gender'', Str ''Mobile Number'',
      Str ''Remarks'']"

definition row_values :: "row \<Rightarrow> cell list" where
  "row_values r =
     [sn r, vehicle_plate r, company r, full_name r, first_name r, middle_last r,
      driver_license r, nationality r, gender r, mobile r, remarks r]"

definition dataframe_to_rows :: "row list \<Rightarrow> cell list list" where
  "dataframe_to_rows df = columns # map row_values df"

text \<open>
  One round of the loop over column G:
  \<^verbatim>\<open>
      cell = ws.cell(row=r, column=dl_col_idx)
      value = str(cell.value).strip() if cell.value is not None else ""
      if not dl_pattern.match(value):
          cell.fill = invalid_fill
          has_errors = True
  \<close>
\<close>

definition dl_col_idx :: nat where
  "dl_col_idx = 7"

definition highlight_license :: "nat \<Rightarrow> worksheet \<times> bool \<Rightarrow> worksheet \<times> bool" where
  "highlight_license r st =
     (case st of (ws, has_errors) \<Rightarrow>
        let ws = touch ws (r, dl_col_idx);
            v = (case cell_value (get_cell ws (r, dl_col_idx)) of
                   Some x \<Rightarrow> strip (py_str x)
                 | None \<Rightarrow> '''')
        in if \<not> dl_pattern_match v then (set_fill ws (r, dl_col_idx) InvalidFill, True)
           else (ws, has_errors))"

text \<open>
  One round of the loop over column F:
  \<^verbatim>\<open>
      cell = ws.cell(row=r, column=col_f_idx)
      value = str(cell.value).strip() if cell.value not in (None, "") else ""
      if value == "":
          cell.fill = invalid_fill
          has_errors = True
  \<close>
\<close>

definition col_f_idx :: nat where
  "col_f_idx = 6"

definition highlight_blank_name :: "nat \<Rightarrow> worksheet \<times> bool \<Rightarrow> worksheet \<times> bool" where
  "highlight_blank_name r st =
     (case st of (ws, has_errors) \<Rightarrow>
        let ws = touch ws (r, col_f_idx);
            v = (case cell_value (get_cell ws (r, col_f_idx)) of
                   None \<Rightarrow> ''''
                 | Some x \<Rightarrow> if x = Str '''' then '''' else strip (py_str x))
        in if v = '''' then (set_fill ws (r, col_f_idx) InvalidFill, True)
           else (ws, has_errors))"

text \<open>
  \<^verbatim>\<open>
      plates = []
      for v in df["Vehicle Plate Number"].dropna():
          plates += [x.strip() for x in str(v).split(";") if x.strip()]
  \<close>
\<close>

definition vehicle_plates :: "row list \<Rightarrow> string list" where
  "vehicle_plates df =
     concat (map (\<lambda>v. filter (\<lambda>x. x \<noteq> '''') (map strip (py_split (py_str v) CHR '';'')))
               (filter (\<lambda>v. \<not> isna v) (map vehicle_plate df)))"

text \<open>
  The two summary blocks, written in column B two rows below the last row:
  \<^verbatim>\<open>
      ins = ws.max_row + 2
      if plates:
          ws[f"B{ins}"].value   = "Vehicles"
          ws[f"B{ins+1}"].value = ";".join(sorted(set(plates)))
          ins += 2
      ws[f"B{ins}"].value   = "Total Visitors"
      ws[f"B{ins+1}"].value = df["Company Full Name"].notna().sum()
  \<close>
\<close>

definition write_summary :: "row list \<Rightarrow> worksheet \<Rightarrow> worksheet" where
  "write_summary df ws =
     (let plates = vehicle_plates df;
          ins = max_row ws + 2;
          (ws, ins) =
            (if plates \<noteq> []
             then (set_value (set_value ws (ins, 2) (Str ''Vehicles'')) (ins + 1, 2)
                     (Str (py_join '';'' (sort (remdups plates)))),
                   ins + 2)
             else (ws, ins));
          ws = set_value ws (ins, 2) (Str ''Total Visitors'');
          ws = set_value ws (ins + 1, 2)
                 (IntV (int (length (filter (\<lambda>r. \<not> isna (company r)) df))))
      in ws)"

text \<open>
  What \<open>generate_visitor_only_us\<close> does to the sheet \<open>ws\<close> once it is cleared or
  created: the rows are written, the header row gets its fill, the two loops mark the
  invalid cells, and the two summary blocks are written below.
\<close>

definition fill_visitor_sheet :: "row list \<Rightarrow> worksheet \<Rightarrow> worksheet \<times> bool" where
  "fill_visitor_sheet df ws =
     (let ws = fold (\<lambda>row ws. ws_append ws row) (dataframe_to_rows df) ws;
          ws = fold (\<lambda>col ws. set_fill ws (1, col) HeaderFill) [1..<Suc (max_column ws)] ws;
          (ws, has_errors) = fold highlight_license [2..<Suc (max_row ws)] (ws, False);
          (ws, has_errors) = fold highlight_blank_name [2..<Suc (max_row ws)] (ws, has_errors);
          ws = write_summary df ws
      in (ws, has_errors))"

text \<open>
  \<^verbatim>\<open>
      wb = load_workbook(uploaded_file)
      if "Visitor List" in wb.sheetnames:
          ws = wb["Visitor List"]
          ws.delete_rows(1, ws.max_row)
      else:
          ws = wb.create_sheet("Visitor List")
      ...
      wb.save(buf)
      return buf, has_errors
  \<close>
\<close>

definition generate_visitor_only_us :: "row list \<Rightarrow> workbook \<Rightarrow> workbook \<times> bool" where
  "generate_visitor_only_us df wb =
     (case map_of wb ''Visitor List'' of
        Some ws \<Rightarrow>
          (let (ws, has_errors) = fill_visitor_sheet df (delete_rows ws 1 (max_row ws))
           in (replace_sheet ''Visitor List'' ws wb, has_errors))
      | None \<Rightarrow>
          (let (ws, has_errors) = fill_visitor_sheet df new_sheet
           in (replace_sheet ''Visitor List'' ws (create_sheet wb ''Visitor List''),
               has_errors)))"

text \<open>A cell is flagged when it has the fill of the invalid cells.\<close>

definition flagged :: "worksheet \<Rightarrow> nat \<times> nat \<Rightarrow> bool" where
  "flagged ws k \<longleftrightarrow> map_option cell_fill (map_of (ws_cells ws) k) = Some InvalidFill"

definition written_value :: "worksheet \<Rightarrow> nat \<times> nat \<Rightarrow> cell option" where
  "written_value ws k = Option.bind (map_of (ws_cells ws) k) cell_value"

section \<open>Two sheets to run the pipeline on\<close>







section \<open>Notions used in the statements about the workbook\<close>

text \<open>The keys of the dictionary of cells.\<close>

definition sheet_dom :: "worksheet \<Rightarrow> (nat \<times> nat) set" where
  "sheet_dom ws = dom (map_of (ws_cells ws))"

text \<open>The conditions under which the two loops fill a cell, as functions of the value
  of the cell.\<close>

definition license_invalid :: "cell option \<Rightarrow> bool" where
  "license_invalid v \<longleftrightarrow>
     \<not> dl_pattern_match (case v of Some x \<Rightarrow> strip (py_str x) | None \<Rightarrow> '''')"

definition name_blank :: "cell option \<Rightarrow> bool" where
  "name_blank v \<longleftrightarrow>
     (case v of None \<Rightarrow> '''' | Some x \<Rightarrow> if x = Str '''' then '''' else strip (py_str x)) = ''''"

text \<open>
  \<open>marks P c rs st st'\<close>: from the state \<open>st\<close> (sheet and error flag) to \<open>st'\<close>, the cells
  of column \<open>c\<close> in the rows \<open>rs\<close> whose value satisfies \<open>P\<close> got the fill of the invalid
  cells, the flag was raised if there is one, no value changed and nothing else
  changed its fill.
\<close>

definition marks :: "(cell option \<Rightarrow> bool) \<Rightarrow> nat \<Rightarrow> nat list \<Rightarrow>
    worksheet \<times> bool \<Rightarrow> worksheet \<times> bool \<Rightarrow> bool" where
  "marks P c rs st st' \<longleftrightarrow>
     (case st of (ws, e) \<Rightarrow> case st' of (ws', e') \<Rightarrow>
        e' = (e \<or> list_ex (\<lambda>r. P (cell_value (get_cell ws (r, c)))) rs) \<and>
        sheet_dom ws' = sheet_dom ws \<union> (\<lambda>r. (r, c)) ` set rs \<and>
        (\<forall>k. cell_value (get_cell ws' k) = cell_value (get_cell ws k)) \<and>
        (\<forall>k. cell_fill (get_cell ws' k) =
              (if snd k = c \<and> fst k \<in> set rs \<and> P (cell_value (get_cell ws k))
               then InvalidFill else cell_fill (get_cell ws k))))"

text \<open>The cells of the header row and of \<open>n\<close> rows of eleven columns.\<close>

definition in_grid :: "nat \<Rightarrow> nat \<times> nat \<Rightarrow> bool" where
  "in_grid n k \<longleftrightarrow> 1 \<le> fst k \<and> fst k \<le> n + 1 \<and> 1 \<le> snd k \<and> snd k \<le> 11"

text \<open>Rows and columns of a sheet are numbered from 1.\<close>

definition wf_sheet :: "worksheet \<Rightarrow> bool" where
  "wf_sheet ws \<longleftrightarrow> list_all (\<lambda>(k, w). 1 \<le> fst k \<and> 1 \<le> snd k) (ws_cells ws)"

definition wf_workbook :: "workbook \<Rightarrow> bool" where
  "wf_workbook wb \<longleftrightarrow> list_all (\<lambda>(t, ws). wf_sheet ws) wb"

text \<open>A workbook to run \<open>generate_visitor_only_us\<close> on: a sheet of notes, and a visitor
  list with an old row.\<close>

definition example_workbook :: workbook where
  "example_workbook =
     [(''Notes'',
       \<lparr>ws_cells = [((1, 1), \<lparr>cell_value = Some (Str ''keep me''), cell_fill = InvalidFill\<rparr>)],
        current_row = 1\<rparr>),
      (''Visitor List'',
       \<lparr>ws_cells = [((5, 3), \<lparr>cell_value = Some (Str ''old''), cell_fill = InvalidFill\<rparr>)],
        current_row = 5\<rparr>)]"

section \<open>Facts about the string helpers\<close>

lemma slice_to_neg: "0 < k \<Longrightarrow> slice_to s (- int k) = take (length s - k) s"
  by (simp add: slice_to_def)

lemma slice_from_neg: "0 < k \<Longrightarrow> slice_from s (- int k) = drop (length s - k) s"
  by (simp add: slice_from_def)

lemma is_digit_zero: "is_digit CHR ''0''"
  by (simp add: is_digit_def)

lemma is_digit_not_sign: "is_digit c \<Longrightarrow> c \<noteq> CHR ''+'' \<and> c \<noteq> CHR ''-''"
  by (auto simp: is_digit_def)

lemma zfill_digits:
  assumes "\<forall>c\<in>set d. is_digit c" "length d < w"
  shows "zfill d w = replicate (w - length d) CHR ''0'' @ d"
proof (cases d)
  case Nil
  with assms show ?thesis by (simp add: zfill_def)
next
  case (Cons c cs)
  with assms have "is_digit c" by simp
  then have "c \<noteq> CHR ''+''" "c \<noteq> CHR ''-''" using is_digit_not_sign by blast+
  with Cons assms show ?thesis by (simp add: zfill_def)
qed

lemma find_from_takeWhile:
  "c \<in> set s \<Longrightarrow> find_from c s k = k + int (length (takeWhile (\<lambda>x. x \<noteq> c) s))"
  by (induction s arbitrary: k) auto

lemma py_find_takeWhile:
  "c \<in> set s \<Longrightarrow> py_find s c = int (length (takeWhile (\<lambda>x. x \<noteq> c) s))"
  by (simp add: py_find_def find_from_takeWhile)

lemma take_length_takeWhile: "take (length (takeWhile P s)) s = takeWhile P s"
  by (induction s) auto

lemma drop_Suc_length_takeWhile:
  "drop (Suc (length (takeWhile P s))) s = tl (dropWhile P s)"
  by (induction s) auto

lemma takeWhile_tl_dropWhile:
  "c \<in> set s \<Longrightarrow> s = takeWhile (\<lambda>x. x \<noteq> c) s @ c # tl (dropWhile (\<lambda>x. x \<noteq> c) s)"
  by (induction s) auto

section \<open>The mobile number\<close>

lemma fix_mobile_long:
  assumes "10 < length d"
  shows "(let extra = length d - 10 in
           if endswith d (replicate extra CHR ''0'')
           then slice_to d (- int extra) else slice_from d (- 10))
         = (if drop 10 d = replicate (length d - 10) CHR ''0'' then take 10 d
            else drop (length d - 10) d)"
proof -
  have e: "endswith d (replicate (length d - 10) CHR ''0'') \<longleftrightarrow>
           drop 10 d = replicate (length d - 10) CHR ''0''"
    using assms by (simp add: endswith_def)
  have t: "slice_to d (- int (length d - 10)) = take 10 d"
    using assms slice_to_neg [of "length d - 10" d] by simp
  have f: "slice_from d (- 10) = drop (length d - 10) d"
    using slice_from_neg [of 10 d] by simp
  show ?thesis unfolding Let_def e t f ..
qed

lemma fix_mobile_eq: "fix_mobile x = fix_mobile_spec x"
proof -
  define d where "d = filter is_digit (py_str x)"
  have dig: "\<forall>c\<in>set d. is_digit c" by (simp add: d_def)
  show ?thesis
  proof (cases "10 < length d")
    case True
    define d' where
      "d' = (if drop 10 d = replicate (length d - 10) CHR ''0'' then take 10 d
             else drop (length d - 10) d)"
    have len: "length d' = 10" using True by (simp add: d'_def)
    have "fix_mobile x = (if length d' < 10 then zfill d' 10 else d')"
      unfolding fix_mobile_def remove_non_digits_def d_def[symmetric]
      using True fix_mobile_long [OF True] by (simp add: d'_def Let_def)
    also have "\<dots> = d'" using len by simp
    also have "d' = fix_mobile_spec x"
      unfolding fix_mobile_spec_def d_def[symmetric] using True by (simp add: d'_def Let_def)
    finally show ?thesis .
  next
    case False
    have "fix_mobile x = (if length d < 10 then zfill d 10 else d)"
      unfolding fix_mobile_def remove_non_digits_def d_def[symmetric]
      using False by (simp add: Let_def)
    also have "\<dots> = (if length d < 10 then replicate (10 - length d) CHR ''0'' @ d else d)"
      using zfill_digits [OF dig, of 10] by simp
    also have "\<dots> = fix_mobile_spec x"
      unfolding fix_mobile_spec_def d_def[symmetric] using False by (simp add: Let_def)
    finally show ?thesis .
  qed
qed

lemma fix_mobile_spec_length: "length (fix_mobile_spec x) = 10"
  by (simp add: fix_mobile_spec_def Let_def)

lemma fix_mobile_spec_digits: "\<forall>c\<in>set (fix_mobile_spec x). is_digit c"
  by (auto simp: fix_mobile_spec_def Let_def is_digit_zero dest: in_set_takeD in_set_dropD)

lemma fix_mobile_length: "length (fix_mobile x) = 10"
  by (simp add: fix_mobile_eq fix_mobile_spec_length)

lemma fix_mobile_digits: "list_all is_digit (fix_mobile x)"
  using fix_mobile_spec_digits [of x] by (simp add: fix_mobile_eq list_all_iff)

lemma fix_mobile_fixed_point:
  assumes "length s = 10" "list_all is_digit s"
  shows "fix_mobile (Str s) = s"
proof -
  have "filter is_digit s = s" using assms(2) by (simp add: list_all_iff)
  then show ?thesis using assms(1) by (simp add: fix_mobile_eq fix_mobile_spec_def Let_def)
qed

lemma fix_mobile_examples:
  "fix_mobile (Str ''1234567890123'') = ''4567890123''"
  "fix_mobile (Str ''12345678900'') = ''1234567890''"
  "fix_mobile (Str ''123'') = ''0000000123''"
  "fix_mobile NaN = ''0000000000''"
  by (simp_all add: fix_mobile_def remove_non_digits_def is_digit_def endswith_def
      slice_to_def slice_from_def zfill_def Let_def eval_nat_numeral)

text \<open>
  C2. For every cell \<open>x\<close>, missing and integer cells included, \<open>fix_mobile\<close> keeps the
  digits of \<open>str(x)\<close>. With more than ten digits and \<open>extra\<close> the excess, it drops the
  last \<open>extra\<close> digits when they are all zeros and otherwise keeps the last ten digits,
  the zero rule being tried first. With fewer than ten digits it pads with zeros on the
  left. The result is always ten digits.
\<close>

theorem fix_mobile_rule:
  "fix_mobile x = fix_mobile_spec x \<and> length (fix_mobile x) = 10 \<and>
   list_all is_digit (fix_mobile x)"
  by (simp add: fix_mobile_eq [symmetric] fix_mobile_length fix_mobile_digits)

text \<open>
  C7. Cleaning a cleaned mobile number changes nothing, and every string of exactly
  ten digits is a fixed point of \<open>fix_mobile\<close>.
\<close>

theorem fix_mobile_idempotent:
  "fix_mobile (Str (fix_mobile x)) = fix_mobile x \<and>
   (length s = 10 \<and> list_all is_digit s \<longrightarrow> fix_mobile (Str s) = s)"
  using fix_mobile_fixed_point [of "fix_mobile x"] fix_mobile_fixed_point [of s]
  by (simp add: fix_mobile_length fix_mobile_digits)

theorem fix_mobile_idempotent_witness:
  "fix_mobile (Str (fix_mobile (Str ''12345678900''))) = fix_mobile (Str ''12345678900'') \<and>
   length ''1234567890'' = 10 \<and> list_all is_digit ''1234567890'' \<and>
   fix_mobile (Str ''1234567890'') = ''1234567890''"
  using fix_mobile_idempotent [of "Str ''12345678900''" "''1234567890''"]
  by (simp add: is_digit_def)

section \<open>The name split\<close>

lemma split_name_space:
  assumes "CHR '' '' \<in> set (strip (py_str x))"
  shows "split_name x =
           (takeWhile (\<lambda>c. c \<noteq> CHR '' '') (strip (py_str x)),
            tl (dropWhile (\<lambda>c. c \<noteq> CHR '' '') (strip (py_str x))))"
  using assms
  by (simp add: split_name_def Let_def py_find_takeWhile slice_to_def slice_from_def
      take_length_takeWhile nat_add_distrib drop_Suc_length_takeWhile)

lemma split_name_no_space:
  "CHR '' '' \<notin> set (strip (py_str x)) \<Longrightarrow> split_name x = (strip (py_str x), '''')"
  by (simp add: split_name_def)

lemma split_name_examples:
  "split_name (Str ''John Michael Smith'') = (''John'', ''Michael Smith'')"
  "split_name (Str ''Madonna'') = (''Madonna'', '''')"
  by (simp_all add: split_name_def strip_def lstrip_def rstrip_def
      is_space_def Let_def py_find_def slice_to_def slice_from_def)

text \<open>
  C6, as the claim words it, splits at the first whitespace character. The code
  looks for the space character U+0020 only: a name whose parts are separated by a
  tab is not split.
\<close>

theorem split_name_tab_counterexample:
  "split_name (Str (''John'' @ [CHR 0x09] @ ''Smith'')) =
     (''John'' @ [CHR 0x09] @ ''Smith'', '''') \<and>
   split_name_whitespace (Str (''John'' @ [CHR 0x09] @ ''Smith'')) = (''John'', ''Smith'')"
  by (simp add: split_name_def split_name_whitespace_def strip_def lstrip_def rstrip_def
      is_space_def Let_def)

text \<open>
  C6, amended. For every cell, \<open>split_name\<close> trims \<open>str(x)\<close>. If the trimmed string
  holds a space character U+0020, the result is the part before the first space and the
  part after it; otherwise it is the trimmed string and the empty string.
\<close>

theorem split_name_first_space:
  "(let s = strip (py_str x) in
    if CHR '' '' \<in> set s
    then s = fst (split_name x) @ CHR '' '' # snd (split_name x) \<and>
         CHR '' '' \<notin> set (fst (split_name x))
    else split_name x = (s, ''''))"
proof (cases "CHR '' '' \<in> set (strip (py_str x))")
  case True
  have "CHR '' '' \<notin> set (takeWhile (\<lambda>c. c \<noteq> CHR '' '') (strip (py_str x)))"
    by (auto dest: set_takeWhileD)
  with True show ?thesis
    using takeWhile_tl_dropWhile [OF True] by (simp add: split_name_space Let_def)
next
  case False
  then show ?thesis by (simp add: split_name_no_space Let_def)
qed

section \<open>The clearance date\<close>







lemma count_working_days_unfold:
  "count_working_days d counted workdays =
     (if counted < workdays
      then (if weekday (d + 1) < 5 then count_working_days (d + 1) (counted + 1) workdays
            else count_working_days (d + 1) counted workdays)
      else d)"
  by (subst count_working_days.simps) (simp add: Let_def)

lemma earliest_clearance_examples:
  "earliest_clearance_inclusive \<lparr>dt_date = 739924, dt_microseconds = 0\<rparr> 2 = 739926"
  "earliest_clearance_inclusive \<lparr>dt_date = 739926, dt_microseconds = 0\<rparr> 2 = 739930"
  "earliest_clearance_inclusive \<lparr>dt_date = 739927, dt_microseconds = 0\<rparr> 2 = 739931"
proof -
  have n: "next_working_day 739924 = 739924" "next_working_day 739926 = 739926"
    "next_working_day 739927 = 739929" "next_working_day 739931 = 739931"
    "next_working_day 739930 = 739930"
    by (simp_all add: next_working_day.simps weekday_def)
  have c: "count_working_days 739924 1 2 = 739925" "count_working_days 739926 1 2 = 739929"
    "count_working_days 739929 1 2 = 739930"
    by (simp_all add: count_working_days_unfold weekday_def)
  show "earliest_clearance_inclusive \<lparr>dt_date = 739924, dt_microseconds = 0\<rparr> 2 = 739926"
    "earliest_clearance_inclusive \<lparr>dt_date = 739926, dt_microseconds = 0\<rparr> 2 = 739930"
    "earliest_clearance_inclusive \<lparr>dt_date = 739927, dt_microseconds = 0\<rparr> 2 = 739931"
    by (simp_all add: earliest_clearance_inclusive_def n c)
qed


section \<open>The cleaning pipeline\<close>














lemma length_upt_1: "length [1..<Suc n] = n"
  by (simp only: length_upt diff_Suc_1 One_nat_def)





lemma cell_key_inj: "cell_key a = cell_key b \<Longrightarrow> a = b"
  by (cases a; cases b) simp_all







section \<open>The pipeline on the two sheets\<close>












section \<open>The sheet and its cells\<close>

lemma sheet_dom_keys: "sheet_dom ws = fst ` set (ws_cells ws)"
  by (simp add: sheet_dom_def dom_map_of_conv_image_fst)

lemma sheet_dom_empty_iff: "sheet_dom ws = {} \<longleftrightarrow> ws_cells ws = []"
  by (simp add: sheet_dom_keys)

lemma max_row_dom: "max_row ws = (if sheet_dom ws = {} then 1 else Max (fst ` sheet_dom ws))"
  by (simp add: max_row_def sheet_dom_empty_iff sheet_dom_keys image_image)

lemma max_column_dom:
  "max_column ws = (if sheet_dom ws = {} then 1 else Max (snd ` sheet_dom ws))"
  by (simp add: max_column_def sheet_dom_empty_iff sheet_dom_keys image_image)

lemma get_cell_absent: "k \<notin> sheet_dom ws \<Longrightarrow> get_cell ws k = empty_cell"
  by (auto simp: get_cell_def sheet_dom_def split: option.splits)

lemma get_cell_touch: "get_cell (touch ws k) k' = get_cell ws k'"
  by (auto simp: get_cell_def touch_def update_conv' split: option.splits)

lemma dom_touch: "sheet_dom (touch ws k) = insert k (sheet_dom ws)"
  by (auto simp: sheet_dom_def touch_def update_conv')

lemma get_cell_set_fill:
  "get_cell (set_fill ws k f) k' =
     (if k' = k then (get_cell ws k)\<lparr>cell_fill := f\<rparr> else get_cell ws k')"
  by (simp add: set_fill_def Let_def get_cell_touch update_conv' get_cell_def [of "_\<lparr>ws_cells := _\<rparr>"])
     (simp add: get_cell_def [symmetric] get_cell_touch)

lemma dom_set_fill: "sheet_dom (set_fill ws k f) = insert k (sheet_dom ws)"
  using dom_touch [of ws k] by (auto simp: set_fill_def Let_def sheet_dom_def update_conv')

lemma get_cell_set_value:
  "get_cell (set_value ws k v) k' =
     (if k' = k then (get_cell ws k)\<lparr>cell_value := Some v\<rparr> else get_cell ws k')"
  by (simp add: set_value_def Let_def get_cell_touch update_conv' get_cell_def [of "_\<lparr>ws_cells := _\<rparr>"])
     (simp add: get_cell_def [symmetric] get_cell_touch)

lemma dom_set_value: "sheet_dom (set_value ws k v) = insert k (sheet_dom ws)"
  using dom_touch [of ws k] by (auto simp: set_value_def Let_def sheet_dom_def update_conv')

lemma map_of_zip_upt:
  "map_of (zip [a..<a + length vs] vs) c =
     (if a \<le> c \<and> c < a + length vs then Some (vs ! (c - a)) else None)"
proof (induction vs arbitrary: a)
  case Nil
  then show ?case by simp
next
  case (Cons v vs)
  have "[a..<a + length (v # vs)] = a # [Suc a..<Suc a + length vs]"
    using upt_rec [of a "a + length (v # vs)"] by simp
  then show ?case using Cons.IH [of "Suc a"] by (auto simp: Suc_diff_le)
qed

lemma map_of_zip_from_1:
  "map_of (zip [1..<Suc (length vs)] vs) c =
     (if 1 \<le> c \<and> c \<le> length vs then Some (vs ! (c - 1)) else None)"
  using map_of_zip_upt [of 1 vs c] by auto

lemma fold_update_row:
  assumes "distinct (map fst kvs)"
  shows "map_of (fold (\<lambda>(c, v). AList.update (r, c) (f v)) kvs al) k =
           (if fst k = r
            then (case map_of kvs (snd k) of Some v \<Rightarrow> Some (f v) | None \<Rightarrow> map_of al k)
            else map_of al k)"
  using assms
proof (induction kvs arbitrary: al)
  case Nil
  then show ?case by simp
next
  case (Cons kv kvs)
  obtain c v where kv: "kv = (c, v)" by (cases kv)
  have d: "distinct (map fst kvs)" and c: "c \<notin> fst ` set kvs" using Cons.prems kv by auto
  have n: "map_of kvs c = None" using c by (simp add: map_of_eq_None_iff)
  show ?case
    using Cons.IH [OF d, of "AList.update (r, c) (f v) al"] n
    by (cases k) (auto simp: kv update_conv' split: option.splits)
qed

lemma ws_cells_ws_append:
  "ws_cells (ws_append ws vs) =
     fold (\<lambda>(c, v). AList.update (current_row ws + 1, c) (new_cell v))
       (zip [1..<Suc (length vs)] vs) (ws_cells ws)"
  unfolding ws_append_def Let_def new_cell_def by simp

lemma map_of_ws_append:
  "map_of (ws_cells (ws_append ws vs)) k =
     (if fst k = current_row ws + 1 \<and> 1 \<le> snd k \<and> snd k \<le> length vs
      then Some (new_cell (vs ! (snd k - 1)))
      else map_of (ws_cells ws) k)"
proof -
  have d: "distinct (map fst (zip [1..<Suc (length vs)] vs))"
    by (simp only: map_fst_zip length_upt_1 distinct_upt)
  show ?thesis
    by (simp only: ws_cells_ws_append fold_update_row [OF d] map_of_zip_from_1)
       (simp split: option.splits)
qed

lemma current_row_ws_append: "current_row (ws_append ws vs) = current_row ws + 1"
  by (simp add: ws_append_def Let_def)

lemma map_of_append_rows:
  "map_of (ws_cells (fold (\<lambda>row ws. ws_append ws row) rows ws)) k =
     (if current_row ws < fst k \<and> fst k \<le> current_row ws + length rows \<and>
         1 \<le> snd k \<and> snd k \<le> length (rows ! (fst k - current_row ws - 1))
      then Some (new_cell (rows ! (fst k - current_row ws - 1) ! (snd k - 1)))
      else map_of (ws_cells ws) k) \<and>
   current_row (fold (\<lambda>row ws. ws_append ws row) rows ws) = current_row ws + length rows"
proof (induction rows arbitrary: ws)
  case Nil
  then show ?case by auto
next
  case (Cons row rows)
  show ?case
    using Cons.IH [of "ws_append ws row"]
    by (auto simp: map_of_ws_append current_row_ws_append nth_Cons' Suc_diff_Suc
        split: if_splits)
qed

lemma highlight_license_marks:
  "marks license_invalid dl_col_idx [r] st (highlight_license r st)"
  by (cases st)
     (auto simp: marks_def highlight_license_def Let_def license_invalid_def
       get_cell_set_fill get_cell_touch dom_set_fill dom_touch)

lemma highlight_blank_name_marks:
  "marks name_blank col_f_idx [r] st (highlight_blank_name r st)"
  by (cases st)
     (auto simp: marks_def highlight_blank_name_def Let_def name_blank_def
       get_cell_set_fill get_cell_touch dom_set_fill dom_touch)

lemma marks_Nil: "marks P c [] st st"
  by (cases st) (simp add: marks_def)

lemma marks_trans:
  assumes "marks P c [r] st st1" "marks P c rs st1 st2"
  shows "marks P c (r # rs) st st2"
proof -
  obtain ws e where st: "st = (ws, e)" by (cases st)
  obtain ws1 e1 where st1: "st1 = (ws1, e1)" by (cases st1)
  obtain ws2 e2 where st2: "st2 = (ws2, e2)" by (cases st2)
  from assms(1) have a:
    "e1 = (e \<or> P (cell_value (get_cell ws (r, c))))"
    "sheet_dom ws1 = insert (r, c) (sheet_dom ws)"
    "\<And>k. cell_value (get_cell ws1 k) = cell_value (get_cell ws k)"
    "\<And>k. cell_fill (get_cell ws1 k) =
        (if snd k = c \<and> fst k = r \<and> P (cell_value (get_cell ws k))
         then InvalidFill else cell_fill (get_cell ws k))"
    by (auto simp: marks_def st st1)
  from assms(2) have b:
    "e2 = (e1 \<or> list_ex (\<lambda>r. P (cell_value (get_cell ws1 (r, c)))) rs)"
    "sheet_dom ws2 = sheet_dom ws1 \<union> (\<lambda>r. (r, c)) ` set rs"
    "\<And>k. cell_value (get_cell ws2 k) = cell_value (get_cell ws1 k)"
    "\<And>k. cell_fill (get_cell ws2 k) =
        (if snd k = c \<and> fst k \<in> set rs \<and> P (cell_value (get_cell ws1 k))
         then InvalidFill else cell_fill (get_cell ws1 k))"
    by (auto simp: marks_def st1 st2)
  show ?thesis
    unfolding marks_def st st2 prod.case
  proof (intro conjI allI)
    show "e2 = (e \<or> list_ex (\<lambda>r. P (cell_value (get_cell ws (r, c)))) (r # rs))"
      by (simp add: a(1) b(1) a(3))
    show "sheet_dom ws2 = sheet_dom ws \<union> (\<lambda>r. (r, c)) ` set (r # rs)"
      by (auto simp: a(2) b(2))
    show "cell_value (get_cell ws2 k) = cell_value (get_cell ws k)" for k
      by (simp add: a(3) b(3))
    show "cell_fill (get_cell ws2 k) =
        (if snd k = c \<and> fst k \<in> set (r # rs) \<and> P (cell_value (get_cell ws k))
         then InvalidFill else cell_fill (get_cell ws k))" for k
      by (auto simp: a(3) a(4) b(4))
  qed
qed

lemma fold_marks:
  assumes "\<And>r st. marks P c [r] st (step r st)"
  shows "marks P c rs st (fold step rs st)"
proof (induction rs arbitrary: st)
  case Nil
  show ?case by (simp add: marks_Nil)
next
  case (Cons r rs)
  show ?case
    using marks_trans [OF assms [of r st] Cons.IH [of "step r st"]] by simp
qed

lemma get_cell_new_sheet: "get_cell new_sheet k = empty_cell"
  by (simp add: get_cell_def new_sheet_def)

lemma length_dataframe_rows:
  "length (dataframe_to_rows df) = Suc (length df)"
  "i < Suc (length df) \<Longrightarrow> length (dataframe_to_rows df ! i) = 11"
  by (auto simp: dataframe_to_rows_def columns_def row_values_def nth_Cons')

lemma appended_sheet:
  fixes df :: "row list"
  defines "wsA \<equiv> fold (\<lambda>row ws. ws_append ws row) (dataframe_to_rows df) new_sheet"
  shows "map_of (ws_cells wsA) k =
           (if in_grid (length df) k
            then Some (new_cell (dataframe_to_rows df ! (fst k - 1) ! (snd k - 1)))
            else None)"
proof -
  have c: "current_row new_sheet = 0" "map_of (ws_cells new_sheet) k = None"
    by (simp_all add: new_sheet_def)
  have l: "fst k - 1 < Suc (length df)" if "1 \<le> fst k" "fst k \<le> length df + 1"
    using that by simp
  show ?thesis
    unfolding wsA_def
    using conjunct1 [OF map_of_append_rows [of "dataframe_to_rows df" new_sheet k]]
      length_dataframe_rows(2) [of "fst k - 1" df]
    by (auto simp: c in_grid_def length_dataframe_rows(1))
qed

lemma sheet_dom_grid:
  assumes "\<And>k. map_of (ws_cells ws) k = (if in_grid n k then Some (f k) else None)"
  shows "sheet_dom ws = {1..n + 1} \<times> {1..11}"
  by (auto simp: sheet_dom_def assms in_grid_def dom_def)

lemma max_row_grid:
  assumes "sheet_dom ws = {1..n + 1} \<times> {1..11}"
  shows "max_row ws = n + 1"
proof -
  have "fst ` sheet_dom ws = {1..n + 1}" by (simp add: assms)
  moreover have "Max {1..n + 1} = n + 1" by (rule Max_eqI) auto
  moreover have "sheet_dom ws \<noteq> {}" by (simp add: assms)
  ultimately show ?thesis by (simp add: max_row_dom)
qed

lemma max_column_grid:
  assumes "sheet_dom ws = {1..n + 1} \<times> {1..11}"
  shows "max_column ws = 11"
proof -
  have "snd ` sheet_dom ws = {1..11}" by (simp add: assms)
  moreover have "Max {1..11::nat} = 11" by (rule Max_eqI) auto
  moreover have "sheet_dom ws \<noteq> {}" by (simp add: assms)
  ultimately show ?thesis by (simp add: max_column_dom)
qed

lemma fold_set_fill:
  "get_cell (fold (\<lambda>x ws. set_fill ws (g x) f) xs ws) k =
     (if k \<in> g ` set xs then (get_cell ws k)\<lparr>cell_fill := f\<rparr> else get_cell ws k) \<and>
   sheet_dom (fold (\<lambda>x ws. set_fill ws (g x) f) xs ws) = sheet_dom ws \<union> g ` set xs"
proof (induction xs arbitrary: ws)
  case Nil
  show ?case by simp
next
  case (Cons x xs)
  show ?case
    using Cons.IH [of "set_fill ws (g x) f"]
    by (auto simp: get_cell_set_fill dom_set_fill)
qed

lemma flagged_get_cell: "flagged ws k \<longleftrightarrow> cell_fill (get_cell ws k) = InvalidFill"
  by (auto simp: flagged_def get_cell_def empty_cell_def split: option.splits)

lemma written_value_get_cell: "written_value ws k = cell_value (get_cell ws k)"
  by (auto simp: written_value_def get_cell_def empty_cell_def split: option.splits)

lemma set_value_keeps:
  "cell_fill (get_cell (set_value ws k v) k') = cell_fill (get_cell ws k')"
  "snd k' \<noteq> snd k \<Longrightarrow> cell_value (get_cell (set_value ws k v) k') = cell_value (get_cell ws k')"
  by (auto simp: get_cell_set_value)

lemma write_summary_keeps:
  "cell_fill (get_cell (write_summary df ws) k) = cell_fill (get_cell ws k)"
  "snd k \<noteq> 2 \<Longrightarrow> cell_value (get_cell (write_summary df ws) k) = cell_value (get_cell ws k)"
  by (simp_all add: write_summary_def Let_def split_def set_value_keeps)

lemma get_cell_grid:
  assumes "\<And>k. map_of (ws_cells ws) k = (if in_grid n k then Some (f k) else None)"
  shows "get_cell ws k = (if in_grid n k then f k else empty_cell)"
  by (simp add: get_cell_def assms)

lemma data_cell:
  assumes "i < length df"
  shows "dataframe_to_rows df ! (i + 2 - 1) ! (7 - 1) = driver_license (df ! i)"
    and "dataframe_to_rows df ! (i + 2 - 1) ! (6 - 1) = middle_last (df ! i)"
  using assms by (simp_all add: dataframe_to_rows_def row_values_def)

lemma marksD:
  assumes "marks P c rs (ws, e) (ws', e')"
  shows "e' = (e \<or> (\<exists>r\<in>set rs. P (cell_value (get_cell ws (r, c)))))"
    and "sheet_dom ws' = sheet_dom ws \<union> (\<lambda>r. (r, c)) ` set rs"
    and "cell_value (get_cell ws' k) = cell_value (get_cell ws k)"
    and "cell_fill (get_cell ws' k) =
          (if snd k = c \<and> fst k \<in> set rs \<and> P (cell_value (get_cell ws k))
           then InvalidFill else cell_fill (get_cell ws k))"
  using assms by (cases k; auto simp: marks_def list_ex_iff)+

lemma fill_visitor_sheet_new:
  assumes "fill_visitor_sheet df new_sheet = (ws, e)"
  shows "cell_fill (get_cell ws k) = InvalidFill \<longleftrightarrow>
           2 \<le> fst k \<and> fst k \<le> length df + 1 \<and>
           (snd k = 7 \<and> license_invalid (Some (driver_license (df ! (fst k - 2)))) \<or>
            snd k = 6 \<and> name_blank (Some (middle_last (df ! (fst k - 2)))))"
    and "e \<longleftrightarrow> list_ex (\<lambda>r. license_invalid (Some (driver_license r)) \<or>
                            name_blank (Some (middle_last r))) df"
    and "in_grid (length df) k \<Longrightarrow> snd k \<noteq> 2 \<Longrightarrow>
           cell_value (get_cell ws k) = Some (dataframe_to_rows df ! (fst k - 1) ! (snd k - 1))"
proof -
  define n where "n = length df"
  define rows where "rows = dataframe_to_rows df"
  define wsA where "wsA = fold (\<lambda>row ws. ws_append ws row) rows new_sheet"
  define wsB where
    "wsB = fold (\<lambda>col ws. set_fill ws (1, col) HeaderFill) [1..<Suc (max_column wsA)] wsA"
  define stC where "stC = fold highlight_license [2..<Suc (max_row wsB)] (wsB, False)"
  define stD where "stD = fold highlight_blank_name [2..<Suc (max_row (fst stC))] stC"
  have res: "ws = write_summary df (fst stD)" "e = snd stD"
    using assms
    by (simp_all add: fill_visitor_sheet_def Let_def split_def stD_def stC_def wsB_def wsA_def
        rows_def)
  \<comment> \<open>the rows as written\<close>
  have mA: "map_of (ws_cells wsA) k =
      (if in_grid n k then Some (new_cell (rows ! (fst k - 1) ! (snd k - 1))) else None)" for k
    unfolding wsA_def rows_def n_def by (rule appended_sheet)
  have gA: "get_cell wsA k =
      (if in_grid n k then new_cell (rows ! (fst k - 1) ! (snd k - 1)) else empty_cell)" for k
    by (rule get_cell_grid [of wsA n "\<lambda>k. new_cell (rows ! (fst k - 1) ! (snd k - 1))", OF mA])
  have dA: "sheet_dom wsA = {1..n + 1} \<times> {1..11}"
    by (rule sheet_dom_grid [of wsA n "\<lambda>k. new_cell (rows ! (fst k - 1) ! (snd k - 1))", OF mA])
  have cA: "max_column wsA = 11" by (rule max_column_grid [OF dA])
  \<comment> \<open>the header row\<close>
  have hdr: "(\<lambda>col. (1::nat, col)) ` set [1..<Suc 11] \<subseteq> sheet_dom wsA"
    by (auto simp: dA)
  have dB: "sheet_dom wsB = {1..n + 1} \<times> {1..11}"
    using conjunct2 [OF fold_set_fill [of "\<lambda>col. (1, col)" HeaderFill "[1..<Suc 11]" wsA k]] hdr
    unfolding wsB_def cA dA by blast
  have vB: "cell_value (get_cell wsB k) = cell_value (get_cell wsA k)" for k
    using conjunct1 [OF fold_set_fill [of "\<lambda>col. (1, col)" HeaderFill "[1..<Suc 11]" wsA k]]
    unfolding wsB_def cA by (simp split: if_splits)
  have fB: "cell_fill (get_cell wsB k) \<noteq> InvalidFill" for k
    using conjunct1 [OF fold_set_fill [of "\<lambda>col. (1, col)" HeaderFill "[1..<Suc 11]" wsA k]]
    unfolding wsB_def cA by (simp add: gA new_cell_def empty_cell_def split: if_splits)
  have rB: "max_row wsB = n + 1" by (rule max_row_grid [OF dB])
  \<comment> \<open>the two loops\<close>
  define rs where "rs = [2..<Suc (n + 1)]"
  have rs: "set rs = {2..n + 1}" unfolding rs_def by auto
  obtain wsC e1 where stC: "stC = (wsC, e1)" by (cases stC)
  have mC: "marks license_invalid 7 rs (wsB, False) (wsC, e1)"
    unfolding stC [symmetric] stC_def rB rs_def dl_col_idx_def [symmetric]
    by (rule fold_marks) (rule highlight_license_marks)
  have dC: "sheet_dom wsC = {1..n + 1} \<times> {1..11}"
    unfolding marksD(2) [OF mC] dB rs by auto
  have rC: "max_row wsC = n + 1" by (rule max_row_grid [OF dC])
  obtain wsD e2 where stD: "stD = (wsD, e2)" by (cases stD)
  have mD: "marks name_blank 6 rs (wsC, e1) (wsD, e2)"
    unfolding stD [symmetric] stD_def stC fst_conv rC rs_def col_f_idx_def [symmetric]
    by (rule fold_marks) (rule highlight_blank_name_marks)
  have vC: "cell_value (get_cell wsC k) = cell_value (get_cell wsA k)" for k
    by (simp only: marksD(3) [OF mC] vB)
  have vD: "cell_value (get_cell wsD k) = cell_value (get_cell wsA k)" for k
    by (simp only: marksD(3) [OF mD] vC)
  have fC: "cell_fill (get_cell wsC k) = InvalidFill \<longleftrightarrow>
      snd k = 7 \<and> 2 \<le> fst k \<and> fst k \<le> n + 1 \<and> license_invalid (cell_value (get_cell wsA k))" for k
    unfolding marksD(4) [OF mC] rs vB using fB [of k] by auto
  have fD: "cell_fill (get_cell wsD k) = InvalidFill \<longleftrightarrow>
      snd k = 6 \<and> 2 \<le> fst k \<and> fst k \<le> n + 1 \<and> name_blank (cell_value (get_cell wsA k)) \<or>
      snd k = 7 \<and> 2 \<le> fst k \<and> fst k \<le> n + 1 \<and> license_invalid (cell_value (get_cell wsA k))" for k
    unfolding marksD(4) [OF mD] rs vC using fC [of k] by auto
  have e1: "e1 \<longleftrightarrow> (\<exists>r\<in>{2..n + 1}. license_invalid (cell_value (get_cell wsA (r, 7))))"
    unfolding marksD(1) [OF mC] rs vB by simp
  have e2: "e2 \<longleftrightarrow> e1 \<or> (\<exists>r\<in>{2..n + 1}. name_blank (cell_value (get_cell wsA (r, 6))))"
    unfolding marksD(1) [OF mD] rs vC by simp
  \<comment> \<open>the values of the two columns\<close>
  have v7: "cell_value (get_cell wsA (i + 2, 7)) = Some (driver_license (df ! i))"
    and v6: "cell_value (get_cell wsA (i + 2, 6)) = Some (middle_last (df ! i))"
    if "i < n" for i
    using that data_cell [of i df]
    by (simp_all add: gA in_grid_def new_cell_def rows_def n_def)
  have v7': "cell_value (get_cell wsA k) = Some (driver_license (df ! (fst k - 2)))"
    if "snd k = 7" "2 \<le> fst k" "fst k \<le> n + 1" for k
  proof -
    have a: "fst k - 2 < n" and b: "fst k - 2 + 2 = fst k" using that by arith+
    from v7 [OF a] have "cell_value (get_cell wsA (fst k, snd k))
        = Some (driver_license (df ! (fst k - 2)))"
      by (simp only: b that(1))
    then show ?thesis by (simp only: prod.collapse)
  qed
  have v6': "cell_value (get_cell wsA k) = Some (middle_last (df ! (fst k - 2)))"
    if "snd k = 6" "2 \<le> fst k" "fst k \<le> n + 1" for k
  proof -
    have a: "fst k - 2 < n" and b: "fst k - 2 + 2 = fst k" using that by arith+
    from v6 [OF a] have "cell_value (get_cell wsA (fst k, snd k))
        = Some (middle_last (df ! (fst k - 2)))"
      by (simp only: b that(1))
    then show ?thesis by (simp only: prod.collapse)
  qed
  show "cell_fill (get_cell ws k) = InvalidFill \<longleftrightarrow>
           2 \<le> fst k \<and> fst k \<le> length df + 1 \<and>
           (snd k = 7 \<and> license_invalid (Some (driver_license (df ! (fst k - 2)))) \<or>
            snd k = 6 \<and> name_blank (Some (middle_last (df ! (fst k - 2)))))"
    unfolding res write_summary_keeps(1) stD fst_conv fD n_def [symmetric]
    using v7' [of k] v6' [of k] by auto
  show "e \<longleftrightarrow> list_ex (\<lambda>r. license_invalid (Some (driver_license r)) \<or>
                            name_blank (Some (middle_last r))) df"
  proof -
    have "(\<exists>r\<in>{2..n + 1}. license_invalid (cell_value (get_cell wsA (r, 7)))) \<longleftrightarrow>
          (\<exists>i<n. license_invalid (Some (driver_license (df ! i))))"
    proof
      assume "\<exists>r\<in>{2..n + 1}. license_invalid (cell_value (get_cell wsA (r, 7)))"
      then obtain r where r: "2 \<le> r" "r \<le> n + 1"
        "license_invalid (cell_value (get_cell wsA (r, 7)))" by auto
      then have "r - 2 < n" "license_invalid (Some (driver_license (df ! (r - 2))))"
        using v7' [of "(r, 7)"] by auto
      then show "\<exists>i<n. license_invalid (Some (driver_license (df ! i)))" by blast
    next
      assume "\<exists>i<n. license_invalid (Some (driver_license (df ! i)))"
      then obtain i where "i < n" "license_invalid (Some (driver_license (df ! i)))" by blast
      then have "i + 2 \<in> {2..n + 1}" "license_invalid (cell_value (get_cell wsA (i + 2, 7)))"
        using v7 [of i] by auto
      then show "\<exists>r\<in>{2..n + 1}. license_invalid (cell_value (get_cell wsA (r, 7)))" by blast
    qed
    moreover have "(\<exists>r\<in>{2..n + 1}. name_blank (cell_value (get_cell wsA (r, 6)))) \<longleftrightarrow>
          (\<exists>i<n. name_blank (Some (middle_last (df ! i))))"
    proof
      assume "\<exists>r\<in>{2..n + 1}. name_blank (cell_value (get_cell wsA (r, 6)))"
      then obtain r where r: "2 \<le> r" "r \<le> n + 1"
        "name_blank (cell_value (get_cell wsA (r, 6)))" by auto
      then have "r - 2 < n" "name_blank (Some (middle_last (df ! (r - 2))))"
        using v6' [of "(r, 6)"] by auto
      then show "\<exists>i<n. name_blank (Some (middle_last (df ! i)))" by blast
    next
      assume "\<exists>i<n. name_blank (Some (middle_last (df ! i)))"
      then obtain i where "i < n" "name_blank (Some (middle_last (df ! i)))" by blast
      then have "i + 2 \<in> {2..n + 1}" "name_blank (cell_value (get_cell wsA (i + 2, 6)))"
        using v6 [of i] by auto
      then show "\<exists>r\<in>{2..n + 1}. name_blank (cell_value (get_cell wsA (r, 6)))" by blast
    qed
    ultimately have "e2 \<longleftrightarrow> (\<exists>i<n. license_invalid (Some (driver_license (df ! i))) \<or>
        name_blank (Some (middle_last (df ! i))))"
      unfolding e2 e1 by blast
    then show ?thesis
      unfolding res stD snd_conv n_def list_ex_iff by (metis in_set_conv_nth)
  qed
  show "cell_value (get_cell ws k) = Some (dataframe_to_rows df ! (fst k - 1) ! (snd k - 1))"
    if "in_grid (length df) k" "snd k \<noteq> 2"
    unfolding res stD fst_conv using that
    by (simp add: write_summary_keeps(2) vD gA new_cell_def rows_def n_def)
qed

lemma delete_rows_all:
  assumes "wf_sheet ws"
  shows "delete_rows ws 1 (max_row ws) = new_sheet"
proof -
  have "filter (\<lambda>((r, c), w). \<not> (1 \<le> r \<and> r < 1 + max_row ws)) (ws_cells ws) = []"
  proof (rule filter_False, clarify)
    fix r c w
    assume in_ws: "((r, c), w) \<in> set (ws_cells ws)" and not: "\<not> (1 \<le> r \<and> r < 1 + max_row ws)"
    have "1 \<le> r" using assms in_ws by (auto simp: wf_sheet_def list_all_iff)
    moreover have "r \<in> set (map (fst \<circ> fst) (ws_cells ws))" using in_ws by force
    then have "r \<le> max_row ws" using in_ws by (auto simp: max_row_def)
    ultimately show False using not by simp
  qed
  then show ?thesis by (simp add: delete_rows_def new_sheet_def)
qed

lemma map_of_replace_sheet:
  "map_of (replace_sheet t ws wb) t = (if t \<in> fst ` set wb then Some ws else None)"
proof (induction wb)
  case Nil
  show ?case by simp
next
  case (Cons p wb)
  obtain n s where p: "p = (n, s)" by (cases p)
  show ?case
  proof (cases "n = t")
    case True
    then show ?thesis by (simp add: p)
  next
    case False
    then show ?thesis using Cons.IH by (simp add: p)
  qed
qed

lemma map_fst_replace_sheet: "map fst (replace_sheet t ws wb) = map fst wb"
  by (induction wb) auto

lemma nth_replace_sheet:
  "j < length wb \<Longrightarrow> fst (wb ! j) \<noteq> t \<Longrightarrow> replace_sheet t ws wb ! j = wb ! j"
proof (induction wb arbitrary: j)
  case Nil
  then show ?case by simp
next
  case (Cons p wb)
  obtain n s where p: "p = (n, s)" by (cases p)
  show ?case using Cons by (cases j) (auto simp: p)
qed

lemma replace_sheet_absent: "t \<notin> fst ` set wb \<Longrightarrow> replace_sheet t ws wb = wb"
  by (induction wb) auto

lemma replace_sheet_append_new:
  "t \<notin> fst ` set wb \<Longrightarrow> replace_sheet t ws (wb @ [(t, s)]) = wb @ [(t, ws)]"
  by (induction wb) auto

lemma generate_visitor_only_us_eq:
  "generate_visitor_only_us df wb =
     (case map_of wb ''Visitor List'' of
        Some old \<Rightarrow>
          (replace_sheet ''Visitor List''
             (fst (fill_visitor_sheet df (delete_rows old 1 (max_row old)))) wb,
           snd (fill_visitor_sheet df (delete_rows old 1 (max_row old))))
      | None \<Rightarrow>
          (wb @ [(''Visitor List'', fst (fill_visitor_sheet df new_sheet))],
           snd (fill_visitor_sheet df new_sheet)))"
proof (cases "map_of wb ''Visitor List''")
  case None
  then have "''Visitor List'' \<notin> fst ` set wb" by (simp add: map_of_eq_None_iff)
  then show ?thesis
    using None
    by (simp add: generate_visitor_only_us_def create_sheet_def split_def Let_def
        replace_sheet_append_new)
next
  case (Some old)
  then show ?thesis by (simp add: generate_visitor_only_us_def split_def Let_def)
qed

lemma wf_workbook_sheet:
  "wf_workbook wb \<Longrightarrow> map_of wb t = Some ws \<Longrightarrow> wf_sheet ws"
  by (auto simp: wf_workbook_def list_all_iff dest!: map_of_SomeD)

lemma generate_visitor_sheet:
  assumes "wf_workbook wb"
  shows "map_of (fst (generate_visitor_only_us df wb)) ''Visitor List''
           = Some (fst (fill_visitor_sheet df new_sheet)) \<and>
         snd (generate_visitor_only_us df wb) = snd (fill_visitor_sheet df new_sheet)"
proof (cases "map_of wb ''Visitor List''")
  case None
  then have "''Visitor List'' \<notin> fst ` set wb" by (simp add: map_of_eq_None_iff)
  then have "map_of wb ''Visitor List'' = None" by (simp add: map_of_eq_None_iff)
  then show ?thesis
    by (simp add: generate_visitor_only_us_eq None map_add_def [symmetric] map_add_Some_iff)
next
  case (Some old)
  then have "''Visitor List'' \<in> fst ` set wb" by (force dest: map_of_SomeD)
  moreover have "delete_rows old 1 (max_row old) = new_sheet"
    using wf_workbook_sheet [OF assms Some] by (rule delete_rows_all)
  ultimately show ?thesis
    by (simp add: generate_visitor_only_us_eq Some map_of_replace_sheet)
qed

end
